theory Spec2Isabelle
  imports Complex_Main
begin

section \<open>JavaScript numbers\<close>

text \<open>
  A JavaScript number is an IEEE 754 double. The model represents a double by the real
  number it denotes, and an arithmetic operator by the exact operation followed by
  rounding to the nearest double, ties to the even significand. Doubles have 53
  significant bits: for \<open>2^e \<le> |x| < 2^(e+1)\<close> they are the integer multiples of
  \<open>ulp x = 2^(e-52)\<close>. The exponent range is taken as unbounded, so overflow to
  \<open>Infinity\<close>, \<open>NaN\<close> and the subnormal numbers are outside the model; the numbers of
  the widget are pixel sizes, milliseconds and values between 0 and 2.
\<close>

definition round_half_even :: "real \<Rightarrow> int" where
  "round_half_even q =
     (let n = \<lfloor>q\<rfloor>; d = q - of_int n
      in if d < 1/2 then n else if 1/2 < d then n + 1 else if even n then n else n + 1)"

definition ulp :: "real \<Rightarrow> real" where
  "ulp x = 2 powi (\<lfloor>log 2 \<bar>x\<bar>\<rfloor> - 52)"

definition round_double :: "real \<Rightarrow> real" where
  "round_double x = (if x = 0 then 0 else ulp x * of_int (round_half_even (x / ulp x)))"

definition js_add :: "real \<Rightarrow> real \<Rightarrow> real" where
  "js_add a b = round_double (a + b)"

definition js_sub :: "real \<Rightarrow> real \<Rightarrow> real" where
  "js_sub a b = round_double (a - b)"

definition js_mul :: "real \<Rightarrow> real \<Rightarrow> real" where
  "js_mul a b = round_double (a * b)"

definition js_div :: "real \<Rightarrow> real \<Rightarrow> real" where
  "js_div a b = round_double (a / b)"

section \<open>The hover animation driver (\<open>setupAnimation\<close>)\<close>

text \<open>
  The counter \<open>frames\<close> only ever holds the integers 0 to 7, on which \<open>frames++\<close> is
  exact: it is a \<open>nat\<close>. The clock readings of \<open>performance.now()\<close>, the accumulator
  \<open>hoverDuration\<close>, the result of \<open>Math.random()\<close> and the uniform \<open>glitchIntensity\<close>
  are doubles.

  The variables captured by the closures of \<open>setupAnimation\<close> form the state. Four
  further fields record the effects of the callbacks passed in:
  \<open>glitchIntensity_value\<close> is the value of the uniform \<open>glitchIntensity\<close>, written
  by \<open>updateIntensity\<close>, \<open>writes\<close> is the history of the values passed to
  \<open>updateIntensity\<close> (oldest first), \<open>rendered\<close> counts the calls of \<open>render\<close>, and
  \<open>scheduled\<close> counts the callbacks handed to \<open>requestAnimationFrame\<close> that have not
  run yet.
\<close>

record driver =
  isHovered :: bool
  frames :: nat
  hoverDuration :: real
  lastFrame :: real
  glitchIntensity_value :: real
  writes :: "real list"
  rendered :: nat
  scheduled :: nat

definition glitchIntensityMod :: real where
  "glitchIntensityMod = 0.5"

text \<open>\<open>updateIntensity\<close>: \<open>planeMesh.material.uniforms.glitchIntensity.value = value\<close>.\<close>

definition updateIntensity :: "real \<Rightarrow> driver \<Rightarrow> driver" where
  "updateIntensity v s = s\<lparr>glitchIntensity_value := v, writes := writes s @ [v]\<rparr>"

text \<open>\<open>render\<close>: \<open>renderer.render(scene, camera)\<close>; only the call is recorded.\<close>

definition render :: "driver \<Rightarrow> driver" where
  "render s = s\<lparr>rendered := Suc (rendered s)\<rparr>"

text \<open>The \<open>mouseover\<close> listener: \<open>if (!isHovered) frames = 0; isHovered = true;\<close>\<close>

definition mouseover :: "driver \<Rightarrow> driver" where
  "mouseover s = (if \<not> isHovered s then s\<lparr>frames := 0\<rparr> else s)\<lparr>isHovered := True\<rparr>"

text \<open>The \<open>mouseout\<close> listener: \<open>isHovered = false; updateIntensity(0);\<close>\<close>

definition mouseout :: "driver \<Rightarrow> driver" where
  "mouseout s = updateIntensity 0 (s\<lparr>isHovered := False\<rparr>)"

text \<open>
  The value written by a step: \<open>(Math.random() + 1) * ANIMATION_CONFIG.glitchIntensityMod\<close>,
  where \<open>rnd\<close> is what \<open>Math.random()\<close> returned.
\<close>

definition pulse :: "real \<Rightarrow> real" where
  "pulse rnd = js_mul (js_add rnd 1) glitchIntensityMod"

text \<open>
  The body of \<open>animateScene\<close>. \<open>now1\<close> is the clock reading inside the guard,
  \<open>now2\<close> the one assigned to \<open>lastFrame\<close>, \<open>rnd\<close> the result of \<open>Math.random()\<close>
  (read only when the ternary takes its first branch).
\<close>

definition animateScene :: "real \<Rightarrow> real \<Rightarrow> real \<Rightarrow> driver \<Rightarrow> driver" where
  "animateScene now1 now2 rnd s =
     (let s1 = s\<lparr>scheduled := Suc (scheduled s)\<rparr>;
          s2 = (if isHovered s1 \<and> frames s1 < 7 then
                  (let s3 = s1\<lparr>hoverDuration :=
                              js_add (hoverDuration s1) (js_sub now1 (lastFrame s1))\<rparr>
                   in if hoverDuration s3 \<ge> 50 then
                        (let s4 = s3\<lparr>frames := Suc (frames s3)\<rparr>;
                             s5 = s4\<lparr>hoverDuration := 0\<rparr>
                         in updateIntensity (if frames s5 < 5 then pulse rnd else 0) s5)
                      else s3)
                else s1)
      in render (s2\<lparr>lastFrame := now2\<rparr>))"

text \<open>
  \<open>setupAnimation\<close>: the four variables are initialised (\<open>now0\<close> is the clock reading
  stored in \<open>lastFrame\<close>), the listeners are registered and \<open>animateScene\<close> is called
  once. The uniform starts at the value \<open>makeScene\<close> gave it, \<open>0.0\<close>.
\<close>

definition setupAnimation :: "real \<Rightarrow> real \<Rightarrow> driver" where
  "setupAnimation now0 now2 =
     animateScene now2 now2 0
       \<lparr>isHovered = False, frames = 0, hoverDuration = 0, lastFrame = now0,
        glitchIntensity_value = 0, writes = [], rendered = 0, scheduled = 0\<rparr>"

text \<open>
  What the host can do to the driver: deliver one of the two mouse events, or run one
  pending animation-frame callback (which it removes from its queue first).
\<close>

datatype event = Mouseover | Mouseout | Frame real real real

fun dispatch :: "driver \<Rightarrow> event \<Rightarrow> driver" where
  "dispatch s Mouseover = mouseover s"
| "dispatch s Mouseout = mouseout s"
| "dispatch s (Frame now1 now2 rnd) =
     (if scheduled s = 0 then s
      else animateScene now1 now2 rnd (s\<lparr>scheduled := scheduled s - 1\<rparr>))"

definition run :: "driver \<Rightarrow> event list \<Rightarrow> driver" where
  "run s es = foldl dispatch s es"

text \<open>
  A frame delivered by the host is given by its three readings \<open>(now1, now2, rnd)\<close>.
\<close>

type_synonym frame = "real \<times> real \<times> real"

definition frame_event :: "frame \<Rightarrow> event" where
  "frame_event f = (case f of (now1, now2, rnd) \<Rightarrow> Frame now1 now2 rnd)"

definition random_of :: "frame \<Rightarrow> real" where
  "random_of f = (case f of (now1, now2, rnd) \<Rightarrow> rnd)"

text \<open>
  The frame-steps of the specification: elapsed time accumulates from frame to frame
  (\<open>acc\<close> is the time accumulated so far, \<open>prev\<close> the clock reading the previous frame
  left), and a frame at which the accumulated time has reached 50ms is a step, which
  consumes the accumulated time. \<open>frame_steps acc prev fs\<close> lists the frames of \<open>fs\<close>
  that are steps, whatever the cadence of the frames.
\<close>

fun frame_steps :: "real \<Rightarrow> real \<Rightarrow> frame list \<Rightarrow> frame list" where
  "frame_steps acc prev [] = []"
| "frame_steps acc prev ((now1, now2, rnd) # fs) =
     (if 50 \<le> js_add acc (js_sub now1 prev)
      then (now1, now2, rnd) # frame_steps 0 now2 fs
      else frame_steps (js_add acc (js_sub now1 prev)) now2 fs)"

text \<open>
  \<open>spaced prev fs\<close> says that each frame of \<open>fs\<close> reads its clock at least 50ms after
  the previous frame stored \<open>lastFrame\<close> (\<open>prev\<close> for the first one): the cadence at
  which every frame is a step.
\<close>

fun spaced :: "real \<Rightarrow> frame list \<Rightarrow> bool" where
  "spaced prev [] = True"
| "spaced prev ((now1, now2, rnd) # fs) = (now1 - prev \<ge> 50 \<and> spaced now2 fs)"

text \<open>\<open>Math.random()\<close> returns a number that is at least 0 and less than 1.\<close>

fun random_ok :: "event \<Rightarrow> bool" where
  "random_ok (Frame now1 now2 rnd) = (0 \<le> rnd \<and> rnd < 1)"
| "random_ok Mouseover = True"
| "random_ok Mouseout = True"

text \<open>
  The largest double below 1, \<open>1 - 2^-53\<close> (the literal \<open>0.9999999999999999\<close>): a value
  \<open>Math.random()\<close> can return.
\<close>

definition largest_below_one :: real where
  "largest_below_one = 1 - 1 / 2 ^ 53"

text \<open>The values the driver writes: 0, or a pulse between 0.5 and 1.\<close>

definition intensity_ok :: "real \<Rightarrow> bool" where
  "intensity_ok v = (v = 0 \<or> (1/2 \<le> v \<and> v \<le> 1))"

fun is_Frame :: "event \<Rightarrow> bool" where
  "is_Frame (Frame now1 now2 rnd) = True"
| "is_Frame Mouseover = False"
| "is_Frame Mouseout = False"

section \<open>The fragment shader (\<open>FRAGMENT_SHADER\<close>)\<close>

text \<open>
  The precision of a GLSL \<open>mediump float\<close> is left to the implementation, so the
  shader is modelled in exact arithmetic: a float is a \<open>real\<close>, a \<open>vec2\<close> a pair, a
  \<open>vec4\<close> a datatype with the four channels, and the sampler the function that
  \<open>texture2D\<close> looks a coordinate up in. The built-ins are those of the GLSL
  specification:
  \<open>floor\<close>, \<open>fract x = x - floor x\<close>, \<open>mod x y = x - y * floor (x / y)\<close>, and the
  sine of the reals.
\<close>

type_synonym vec2 = "real \<times> real"

datatype vec4 = Vec4 (chan_r: real) (chan_g: real) (chan_b: real) (chan_a: real)

type_synonym sampler2D = "vec2 \<Rightarrow> vec4"

definition texture2D :: "sampler2D \<Rightarrow> vec2 \<Rightarrow> vec4" where
  "texture2D sampler uv = sampler uv"

definition floor_glsl :: "real \<Rightarrow> real" where
  "floor_glsl x = of_int \<lfloor>x\<rfloor>"

definition fract :: "real \<Rightarrow> real" where
  "fract x = x - floor_glsl x"

definition mod_glsl :: "real \<Rightarrow> real \<Rightarrow> real" where
  "mod_glsl x y = x - y * floor_glsl (x / y)"

definition vec2_add :: "vec2 \<Rightarrow> vec2 \<Rightarrow> vec2" where
  "vec2_add u v = (fst u + fst v, snd u + snd v)"

definition vec2_sub :: "vec2 \<Rightarrow> vec2 \<Rightarrow> vec2" where
  "vec2_sub u v = (fst u - fst v, snd u - snd v)"

text \<open>\<open>float segment = floor(uv.y * 8.0);\<close>\<close>

definition segment :: "vec2 \<Rightarrow> real" where
  "segment uv = floor_glsl (snd uv * 8.0)"

text \<open>\<open>float randomValue = fract(sin(segment * 1000. + glitchIntensity) * 1000.);\<close>\<close>

definition randomValue :: "real \<Rightarrow> vec2 \<Rightarrow> real" where
  "randomValue glitchIntensity uv = fract (sin (segment uv * 1000 + glitchIntensity) * 1000)"

text \<open>\<open>vec2 offset = vec2(randomValue * 0.03, 0.0) * glitchIntensity;\<close>\<close>

definition offset :: "real \<Rightarrow> vec2 \<Rightarrow> vec2" where
  "offset glitchIntensity uv =
     (randomValue glitchIntensity uv * 0.03 * glitchIntensity, 0.0 * glitchIntensity)"

text \<open>\<open>main\<close>: the value assigned to \<open>gl_FragColor\<close>.\<close>

definition fragment_main :: "sampler2D \<Rightarrow> real \<Rightarrow> vec2 \<Rightarrow> vec4" where
  "fragment_main tDiffuse glitchIntensity vUv =
     (let uv = vUv;
          baseState = texture2D tDiffuse uv
      in if glitchIntensity \<le> 0 then baseState
         else
           (let redGlitch = texture2D tDiffuse (vec2_add uv (offset glitchIntensity uv));
                greenGlitch = texture2D tDiffuse (vec2_sub uv (offset glitchIntensity uv));
                blueGlitch = texture2D tDiffuse uv;
                m = mod_glsl (segment uv) 3.0
            in if m = 0.0 then
                 Vec4 (chan_r redGlitch) (chan_g greenGlitch) (chan_b baseState)
                      (chan_a redGlitch + chan_a greenGlitch)
               else if m = 1.0 then
                 Vec4 (chan_r baseState) (chan_g greenGlitch) (chan_b blueGlitch)
                      (chan_a baseState + chan_a greenGlitch)
               else
                 Vec4 (chan_r redGlitch) (chan_g baseState) (chan_b blueGlitch)
                      (chan_a redGlitch + chan_a baseState)))"

text \<open>
  The three recombination rules as the specification words them, selected by the
  integer \<open>segment mod 3\<close>; \<open>sample_plus\<close>, \<open>sample_minus\<close> and \<open>unshifted\<close> are the
  samples at \<open>uv + offset\<close>, \<open>uv - offset\<close> and \<open>uv\<close>.
\<close>

definition documented_recombination :: "int \<Rightarrow> vec4 \<Rightarrow> vec4 \<Rightarrow> vec4 \<Rightarrow> vec4" where
  "documented_recombination k sample_plus sample_minus unshifted =
     (if k = 0 then
        Vec4 (chan_r sample_plus) (chan_g sample_minus) (chan_b unshifted)
             (chan_a sample_plus + chan_a sample_minus)
      else if k = 1 then
        Vec4 (chan_r unshifted) (chan_g sample_minus) (chan_b unshifted)
             (chan_a unshifted + chan_a sample_minus)
      else
        Vec4 (chan_r sample_plus) (chan_g unshifted) (chan_b unshifted)
             (chan_a sample_plus + chan_a unshifted))"

section \<open>Scene assembly (\<open>makeScene\<close>)\<close>

text \<open>
  Of the scene, the model keeps the numbers \<open>makeScene\<close> chooses: the arguments of
  \<open>THREE.PerspectiveCamera\<close>, the camera's position, the arguments of
  \<open>THREE.PlaneGeometry\<close>, the position of the mesh, the initial uniform and the
  \<open>transparent\<close> flag. The graphics library creates every object at the origin, and
  \<open>makeScene\<close> moves only the camera (\<open>camera.position.z = 1\<close>).
  \<open>offsetWidth\<close> and \<open>offsetHeight\<close> are non-negative integers. The literals 90, 10,
  1, 2 and 0.0 are doubles; the literal \<open>0.01\<close> denotes the double nearest to it.
\<close>

datatype vector3 = Vector3 (coord_x: real) (coord_y: real) (coord_z: real)

record perspectiveCamera =
  fov :: real
  aspect :: real
  near :: real
  far :: real
  camera_position :: vector3

record plane_mesh =
  plane_width :: real
  plane_height :: real
  mesh_position :: vector3

record glitch_scene =
  camera :: perspectiveCamera
  planeMesh :: plane_mesh
  uniform_glitchIntensity :: real
  transparent :: bool

definition makeScene :: "nat \<Rightarrow> nat \<Rightarrow> glitch_scene" where
  "makeScene offsetWidth offsetHeight =
     (let aspectRatio = js_div (real offsetWidth) (real offsetHeight)
      in \<lparr>camera = \<lparr>fov = 90, aspect = aspectRatio, near = round_double 0.01, far = 10,
                     camera_position = Vector3 0 0 1\<rparr>,
          planeMesh = \<lparr>plane_width = js_mul 2 aspectRatio, plane_height = 2,
                        mesh_position = Vector3 0 0 0\<rparr>,
          uniform_glitchIntensity = 0.0,
          transparent = True\<rparr>)"

text \<open>
  The view frustum of a perspective camera that looks down the negative z axis, as a
  geometric object (in exact arithmetic): the vertical field of view \<open>fov\<close> is in
  degrees, the visible height at distance \<open>d\<close> is
  \<open>2 * d * tan (fov / 2)\<close>, the visible width is \<open>aspect\<close> times the height, and the
  visible rectangle is centred on the view axis. A rectangle is given as
  \<open>(x_min, x_max, y_min, y_max)\<close>. \<open>plane_rect\<close> is the rectangle a plane geometry
  covers: its width and height, centred on the position of the mesh.
\<close>

type_synonym rect = "real \<times> real \<times> real \<times> real"

definition frustum_height :: "perspectiveCamera \<Rightarrow> real \<Rightarrow> real" where
  "frustum_height c d = 2 * d * tan (fov c * pi / 180 / 2)"

definition frustum_width :: "perspectiveCamera \<Rightarrow> real \<Rightarrow> real" where
  "frustum_width c d = aspect c * frustum_height c d"

definition view_distance :: "perspectiveCamera \<Rightarrow> plane_mesh \<Rightarrow> real" where
  "view_distance c m = coord_z (camera_position c) - coord_z (mesh_position m)"

definition frustum_rect :: "perspectiveCamera \<Rightarrow> real \<Rightarrow> rect" where
  "frustum_rect c d =
     (coord_x (camera_position c) - frustum_width c d / 2,
      coord_x (camera_position c) + frustum_width c d / 2,
      coord_y (camera_position c) - frustum_height c d / 2,
      coord_y (camera_position c) + frustum_height c d / 2)"

definition plane_rect :: "plane_mesh \<Rightarrow> rect" where
  "plane_rect m =
     (coord_x (mesh_position m) - plane_width m / 2,
      coord_x (mesh_position m) + plane_width m / 2,
      coord_y (mesh_position m) - plane_height m / 2,
      coord_y (mesh_position m) + plane_height m / 2)"

section \<open>The text rasterizer (\<open>writeText\<close>)\<close>

text \<open>
  The 2D context of the canvas holds the four drawing attributes \<open>writeText\<close> assigns
  and the bitmap, a function from pixel positions to premultiplied RGBA values.
  The host's text renderer is a parameter: \<open>glyphs fillStyle font textAlign textBaseline
  text x y\<close> is the image of the label painted in the fill colour, antialiased, as a
  premultiplied RGBA value per pixel. \<open>fillText\<close> composites that image over the
  bitmap with the context's default operator, source-over; \<open>writeText\<close> changes neither
  the operator nor the global alpha.
\<close>

record computedStyle =
  fontWeight :: string
  fontSize :: string
  fontFamily :: string
  color :: string

record canvas =
  canvas_width :: nat
  canvas_height :: nat
  fillStyle :: string
  font :: string
  textAlign :: string
  textBaseline :: string
  bitmap :: "nat \<times> nat \<Rightarrow> vec4"

type_synonym text_renderer =
  "string \<Rightarrow> string \<Rightarrow> string \<Rightarrow> string \<Rightarrow> string \<Rightarrow> real \<Rightarrow> real \<Rightarrow> nat \<times> nat \<Rightarrow> vec4"

definition source_over :: "vec4 \<Rightarrow> vec4 \<Rightarrow> vec4" where
  "source_over src dst =
     Vec4 (chan_r src + chan_r dst * (1 - chan_a src))
          (chan_g src + chan_g dst * (1 - chan_a src))
          (chan_b src + chan_b dst * (1 - chan_a src))
          (chan_a src + chan_a dst * (1 - chan_a src))"

definition fillText :: "text_renderer \<Rightarrow> string \<Rightarrow> real \<Rightarrow> real \<Rightarrow> canvas \<Rightarrow> canvas" where
  "fillText glyphs text x y c =
     c\<lparr>bitmap := (\<lambda>p. source_over
          (glyphs (fillStyle c) (font c) (textAlign c) (textBaseline c) text x y p)
          (bitmap c p))\<rparr>"

definition writeText :: "text_renderer \<Rightarrow> canvas \<Rightarrow> computedStyle \<Rightarrow> string \<Rightarrow> canvas" where
  "writeText glyphs textCanvas style text =
     (let c1 = textCanvas\<lparr>fillStyle := color style\<rparr>;
          c2 = c1\<lparr>font := fontWeight style @ '' '' @ fontSize style @ '' '' @ fontFamily style\<rparr>;
          c3 = c2\<lparr>textAlign := ''center''\<rparr>;
          c4 = c3\<lparr>textBaseline := ''middle''\<rparr>
      in fillText glyphs text (js_div (real (canvas_width c4)) 2)
           (js_div (real (canvas_height c4)) 2) c4)"

text \<open>
  The image \<open>writeText\<close> hands to the compositor: the label rendered with the attributes
  it has just assigned, anchored at the centre of the canvas.
\<close>

definition label_image :: "text_renderer \<Rightarrow> canvas \<Rightarrow> computedStyle \<Rightarrow> string \<Rightarrow> nat \<times> nat \<Rightarrow> vec4" where
  "label_image glyphs textCanvas style text =
     glyphs (color style) (fontWeight style @ '' '' @ fontSize style @ '' '' @ fontFamily style)
       ''center'' ''middle'' text
       (js_div (real (canvas_width textCanvas)) 2) (js_div (real (canvas_height textCanvas)) 2)"

text \<open>
  Test data: a new canvas of one transparent pixel with the context's default
  attributes, a computed style, and two renderers whose label covers every pixel
  fully (opaque black) and by half (an antialiased edge).
\<close>

definition one_pixel_canvas :: canvas where
  "one_pixel_canvas =
     \<lparr>canvas_width = 1, canvas_height = 1, fillStyle = ''#000000'', font = ''10px sans-serif'',
      textAlign = ''start'', textBaseline = ''alphabetic'', bitmap = (\<lambda>p. Vec4 0 0 0 0)\<rparr>"

definition black_serif :: computedStyle where
  "black_serif =
     \<lparr>fontWeight = ''400'', fontSize = ''16px'', fontFamily = ''serif'', color = ''rgb(0, 0, 0)''\<rparr>"

definition opaque_glyphs :: text_renderer where
  "opaque_glyphs fs fnt al bl txt x y p = Vec4 0 0 0 1"

definition edge_glyphs :: text_renderer where
  "edge_glyphs fs fnt al bl txt x y p = Vec4 0 0 0 (1/2)"

section \<open>Properties of rounding\<close>

lemma round_half_even_of_int: "round_half_even (of_int k) = k"
  by (simp add: round_half_even_def)

lemma round_half_even_cases:
  "round_half_even q = \<lfloor>q\<rfloor> \<or> round_half_even q = \<lfloor>q\<rfloor> + 1"
  by (simp add: round_half_even_def Let_def)

lemma round_half_even_mono:
  assumes "x \<le> y"
  shows "round_half_even x \<le> round_half_even y"
proof (cases "\<lfloor>x\<rfloor> = \<lfloor>y\<rfloor>")
  case True
  then have "x - of_int \<lfloor>x\<rfloor> \<le> y - of_int \<lfloor>y\<rfloor>" using assms by simp
  then show ?thesis using True
    by (auto simp: round_half_even_def Let_def)
next
  case False
  moreover have "\<lfloor>x\<rfloor> \<le> \<lfloor>y\<rfloor>" using assms by (rule floor_mono)
  ultimately have "\<lfloor>x\<rfloor> + 1 \<le> \<lfloor>y\<rfloor>" by simp
  moreover have "round_half_even x \<le> \<lfloor>x\<rfloor> + 1" using round_half_even_cases [of x] by auto
  moreover have "\<lfloor>y\<rfloor> \<le> round_half_even y" using round_half_even_cases [of y] by auto
  ultimately show ?thesis by linarith
qed

text \<open>The binade of a positive number fixes its unit in the last place.\<close>

lemma binade_exists:
  assumes "0 < x"
  shows "2 powi \<lfloor>log 2 x\<rfloor> \<le> x \<and> x < 2 powi (\<lfloor>log 2 x\<rfloor> + 1)"
proof -
  have "(2::real) powr real_of_int \<lfloor>log 2 x\<rfloor> = 2 powi \<lfloor>log 2 x\<rfloor>"
    "(2::real) powr (real_of_int \<lfloor>log 2 x\<rfloor> + 1) = 2 powi (\<lfloor>log 2 x\<rfloor> + 1)"
    using powr_real_of_int' [of "2::real" "\<lfloor>log 2 x\<rfloor>"]
      powr_real_of_int' [of "2::real" "\<lfloor>log 2 x\<rfloor> + 1"]
    by simp_all
  then show ?thesis using assms floor_log_eq_powr_iff [of x 2 "\<lfloor>log 2 x\<rfloor>"] by simp
qed

lemma ulp_binade:
  assumes "0 < x" "2 powi e \<le> x" "x < 2 powi (e + 1)"
  shows "ulp x = 2 powi (e - 52)"
proof -
  have "(2::real) powr real_of_int e = 2 powi e"
    "(2::real) powr (real_of_int e + 1) = 2 powi (e + 1)"
    using powr_real_of_int' [of "2::real" e] powr_real_of_int' [of "2::real" "e + 1"]
    by simp_all
  then have "\<lfloor>log 2 x\<rfloor> = e"
    using assms floor_log_eq_powr_iff [of x 2 e] by simp
  then show ?thesis using assms(1) by (simp add: ulp_def)
qed

lemma round_double_binade:
  assumes "0 < x" "2 powi e \<le> x" "x < 2 powi (e + 1)"
  shows "round_double x = 2 powi (e - 52) * of_int (round_half_even (x / 2 powi (e - 52)))"
  using assms ulp_binade [OF assms] by (simp add: round_double_def)

lemma powi_split: "(2::real) powi e = 2 powi (e - 52) * 2 ^ 52"
proof -
  have "(2::real) powi e = 2 powi ((e - 52) + 52)" by simp
  also have "\<dots> = 2 powi (e - 52) * 2 powi 52" by (subst power_int_add) simp_all
  finally show ?thesis by simp
qed

text \<open>Rounding stays within the closed binade.\<close>

lemma round_double_bounds:
  assumes "0 < x" "2 powi e \<le> x" "x < 2 powi (e + 1)"
  shows "2 powi e \<le> round_double x \<and> round_double x \<le> 2 powi (e + 1)"
proof -
  let ?u = "(2::real) powi (e - 52)"
  have u: "0 < ?u" by simp
  have lo: "(2::real) powi e = ?u * 2 ^ 52" by (rule powi_split)
  have hi: "(2::real) powi (e + 1) = ?u * 2 ^ 53"
    using powi_split [of "e + 1"] power_int_add_1 [of "2::real" "e - 52"]
    by (simp add: algebra_simps)
  have "2 ^ 52 \<le> x / ?u"
    using assms(2) u unfolding lo by (simp add: pos_le_divide_eq mult.commute)
  then have "round_half_even (of_int (2 ^ 52)) \<le> round_half_even (x / ?u)"
    by (intro round_half_even_mono) simp
  then have a: "2 ^ 52 \<le> round_half_even (x / ?u)" by (simp only: round_half_even_of_int)
  have "x / ?u \<le> 2 ^ 53"
    using assms(3) u unfolding hi by (simp add: pos_divide_le_eq mult.commute)
  then have "round_half_even (x / ?u) \<le> round_half_even (of_int (2 ^ 53))"
    by (intro round_half_even_mono) simp
  then have b: "round_half_even (x / ?u) \<le> 2 ^ 53" by (simp only: round_half_even_of_int)
  have "?u * 2 ^ 52 \<le> ?u * of_int (round_half_even (x / ?u))"
    using a u by (intro mult_left_mono) (simp_all add: of_int_le_iff [symmetric] del: of_int_le_iff)
  moreover have "?u * of_int (round_half_even (x / ?u)) \<le> ?u * 2 ^ 53"
    using b u by (intro mult_left_mono) (simp_all add: of_int_le_iff [symmetric] del: of_int_le_iff)
  ultimately show ?thesis
    unfolding round_double_binade [OF assms] lo hi by simp
qed

text \<open>Rounding is monotone on the positive numbers.\<close>

lemma round_double_mono_pos:
  assumes "0 < x" "x \<le> y"
  shows "round_double x \<le> round_double y"
proof -
  have y: "0 < y" using assms by simp
  let ?ex = "\<lfloor>log 2 x\<rfloor>" and ?ey = "\<lfloor>log 2 y\<rfloor>"
  note bnd_x = binade_exists [OF assms(1)] and bnd_y = binade_exists [OF y]
  have "log 2 x \<le> log 2 y" using assms by simp
  then have le: "?ex \<le> ?ey" by (rule floor_mono)
  show ?thesis
  proof (cases "?ex = ?ey")
    case True
    let ?u = "(2::real) powi (?ex - 52)"
    have u: "0 < ?u" by simp
    have rx: "round_double x = ?u * of_int (round_half_even (x / ?u))"
      using bnd_x assms(1) by (intro round_double_binade) simp_all
    have ry: "round_double y = ?u * of_int (round_half_even (y / ?u))"
      using bnd_y y unfolding True [symmetric] by (intro round_double_binade) simp_all
    have "x / ?u \<le> y / ?u" using assms(2) u by (simp add: divide_right_mono)
    then have "round_half_even (x / ?u) \<le> round_half_even (y / ?u)"
      by (rule round_half_even_mono)
    then show ?thesis unfolding rx ry using u by (intro mult_left_mono) simp_all
  next
    case False
    with le have "?ex + 1 \<le> ?ey" by simp
    then have "(2::real) powi (?ex + 1) \<le> 2 powi ?ey" by (intro power_int_increasing) simp_all
    moreover have "round_double x \<le> 2 powi (?ex + 1)"
      using round_double_bounds [of x ?ex] bnd_x assms(1) by simp
    moreover have "2 powi ?ey \<le> round_double y"
      using round_double_bounds [of y ?ey] bnd_y y by simp
    ultimately show ?thesis by linarith
  qed
qed

text \<open>A multiple of the unit in the last place is a double: rounding leaves it alone.\<close>

lemma round_double_representable:
  assumes "0 < x" "2 powi e \<le> x" "x < 2 powi (e + 1)" "x = of_int k * 2 powi (e - 52)"
  shows "round_double x = x"
proof -
  have "x / 2 powi (e - 52) = of_int k" using assms(4) by simp
  then show ?thesis unfolding round_double_binade [OF assms(1,2,3)]
    by (simp add: round_half_even_of_int assms(4))
qed

lemma round_double_0: "round_double 0 = 0"
  by (simp add: round_double_def)

lemma round_double_50: "round_double 50 = 50"
  by (rule round_double_representable [where e = 5 and k = "25 * 2 ^ 48"]) simp_all

lemma round_double_25: "round_double 25 = 25"
  by (rule round_double_representable [where e = 4 and k = "25 * 2 ^ 48"]) simp_all

lemma round_double_unit_binade:
  "round_double 1 = 1" "round_double (5/4) = 5/4" "round_double (3/2) = 3/2"
  "round_double (7/4) = 7/4"
proof -
  show "round_double 1 = 1"
    by (rule round_double_representable [where e = 0 and k = "2 ^ 52"]) simp_all
  show "round_double (5/4) = 5/4"
    by (rule round_double_representable [where e = 0 and k = "5 * 2 ^ 50"]) simp_all
  show "round_double (3/2) = 3/2"
    by (rule round_double_representable [where e = 0 and k = "3 * 2 ^ 51"]) simp_all
  show "round_double (7/4) = 7/4"
    by (rule round_double_representable [where e = 0 and k = "7 * 2 ^ 50"]) simp_all
qed

text \<open>The largest double below 1, and what adding 1 to it gives: the tie goes to 2.\<close>

lemma round_double_below_1: "round_double (1 - 1 / 2 ^ 53) = 1 - 1 / 2 ^ 53"
  by (rule round_double_representable [where e = "-1" and k = "2 ^ 53 - 1"]) simp_all

lemma round_double_tie: "round_double (2 - 1 / 2 ^ 53) = 2"
proof -
  have "round_double (2 - 1 / 2 ^ 53) =
      2 powi (0 - 52) * of_int (round_half_even ((2 - 1 / 2 ^ 53) / 2 powi (0 - 52)))"
    by (rule round_double_binade) simp_all
  moreover have "(2 - 1 / 2 ^ 53) / 2 powi (0 - 52) = (of_int (2 ^ 53 - 1) + 1/2 :: real)"
    by simp
  moreover have "round_half_even (of_int (2 ^ 53 - 1) + 1/2) = 2 ^ 53"
    unfolding round_half_even_def Let_def by (simp del: of_int_diff)
  ultimately show ?thesis by simp
qed

text \<open>The result of rounding is a double.\<close>

lemma round_double_idem:
  assumes "0 \<le> x"
  shows "round_double (round_double x) = round_double x"
proof (cases "x = 0")
  case True
  then show ?thesis by (simp add: round_double_0)
next
  case False
  with assms have x: "0 < x" by simp
  let ?e = "\<lfloor>log 2 x\<rfloor>"
  let ?r = "round_double x"
  have bnd: "2 powi ?e \<le> x" "x < 2 powi (?e + 1)" using binade_exists [OF x] by simp_all
  have r: "?r = of_int (round_half_even (x / 2 powi (?e - 52))) * 2 powi (?e - 52)"
    using round_double_binade [OF x bnd] by (simp add: mult.commute)
  have rb: "2 powi ?e \<le> ?r" "?r \<le> 2 powi (?e + 1)"
    using round_double_bounds [OF x bnd] by simp_all
  have pos: "0 < ?r" using rb(1) zero_less_power_int [of "2::real" ?e] by linarith
  show ?thesis
  proof (cases "?r < 2 powi (?e + 1)")
    case True
    from pos rb(1) True r show ?thesis by (rule round_double_representable)
  next
    case False
    with rb(2) have eq: "?r = 2 powi (?e + 1)" by simp
    have "(2::real) powi (?e + 1) < 2 powi (?e + 1 + 1)"
      by (intro power_int_strict_increasing) simp_all
    moreover have "(2::real) powi (?e + 1) = of_int (2 ^ 52) * 2 powi (?e + 1 - 52)"
      using powi_split [of "?e + 1"] by (simp add: mult.commute)
    ultimately show ?thesis unfolding eq
      by (intro round_double_representable [where e = "?e + 1" and k = "2 ^ 52"]) simp_all
  qed
qed

text \<open>Multiplying and dividing by 2 are exact.\<close>

lemma ulp_double:
  assumes "x \<noteq> 0"
  shows "ulp (2 * x) = 2 * ulp x"
proof -
  have "log 2 \<bar>2 * x\<bar> = 1 + log 2 \<bar>x\<bar>"
    using assms by (simp add: abs_mult log_mult)
  then have "\<lfloor>log 2 \<bar>2 * x\<bar>\<rfloor> = \<lfloor>log 2 \<bar>x\<bar>\<rfloor> + 1" by simp
  then have "ulp (2 * x) = 2 powi ((\<lfloor>log 2 \<bar>x\<bar>\<rfloor> - 52) + 1)"
    by (simp add: ulp_def algebra_simps)
  also have "\<dots> = 2 powi (\<lfloor>log 2 \<bar>x\<bar>\<rfloor> - 52) * 2"
    by (rule power_int_add_1) simp
  finally show ?thesis by (simp add: ulp_def)
qed

lemma round_double_times_2: "round_double (2 * x) = 2 * round_double x"
proof (cases "x = 0")
  case True
  then show ?thesis by (simp add: round_double_def)
next
  case False
  have "2 * x / (2 * ulp x) = x / ulp x" by simp
  then show ?thesis using False by (simp add: round_double_def ulp_double)
qed

lemma round_double_halve: "round_double (x / 2) = round_double x / 2"
  using round_double_times_2 [of "x / 2"] by simp

text \<open>The pulse \<open>(Math.random() + 1) * 0.5\<close> lies between 0.5 and 1, both included.\<close>

lemma pulse_range:
  assumes "0 \<le> rnd" "rnd < 1"
  shows "1/2 \<le> pulse rnd \<and> pulse rnd \<le> 1"
proof -
  let ?y = "round_double (rnd + 1)"
  have "2 powi 0 \<le> ?y \<and> ?y \<le> 2 powi (0 + 1)"
    using assms by (intro round_double_bounds) simp_all
  then have y: "1 \<le> ?y" "?y \<le> 2" by simp_all
  have p: "pulse rnd = round_double (?y / 2)"
    by (simp add: pulse_def js_mul_def js_add_def glitchIntensityMod_def)
  show ?thesis
  proof (cases "?y = 2")
    case True
    then show ?thesis unfolding p by (simp add: round_double_unit_binade)
  next
    case False
    with y have "0 < ?y / 2" "2 powi (- 1) \<le> ?y / 2" "?y / 2 < 2 powi (- 1 + 1)"
      by simp_all
    then have "2 powi (- 1) \<le> round_double (?y / 2) \<and>
        round_double (?y / 2) \<le> 2 powi (- 1 + 1)"
      by (rule round_double_bounds)
    then show ?thesis unfolding p by simp
  qed
qed

lemma round_double_half_binade:
  "round_double (1/2) = 1/2" "round_double (5/8) = 5/8" "round_double (3/4) = 3/4"
  "round_double (7/8) = 7/8"
  using round_double_halve [of 1] round_double_halve [of "5/4"] round_double_halve [of "3/2"]
    round_double_halve [of "7/4"]
  by (simp_all add: round_double_unit_binade)

lemma pulse_values:
  "pulse 0 = 1/2" "pulse (1/4) = 5/8" "pulse (1/2) = 3/4" "pulse (3/4) = 7/8"
  by (simp_all add: pulse_def js_mul_def js_add_def glitchIntensityMod_def
      round_double_unit_binade round_double_half_binade)

lemma pulse_largest_below_one: "pulse largest_below_one = 1"
proof -
  have "largest_below_one + 1 = 2 - 1 / 2 ^ 53" by (simp add: largest_below_one_def)
  then have "js_add largest_below_one 1 = 2" by (simp only: js_add_def round_double_tie)
  then show ?thesis
    by (simp add: pulse_def js_mul_def glitchIntensityMod_def round_double_unit_binade)
qed

text \<open>
  Once at least 50ms separate the clock reading from \<open>lastFrame\<close>, the accumulated
  time reaches the threshold.
\<close>

lemma step_due:
  assumes "0 \<le> acc" "50 \<le> now1 - prev"
  shows "50 \<le> js_add acc (js_sub now1 prev)"
proof -
  have "round_double 50 \<le> round_double (now1 - prev)"
    using assms(2) by (intro round_double_mono_pos) simp_all
  then have a: "50 \<le> js_sub now1 prev" by (simp add: js_sub_def round_double_50)
  then have "round_double 50 \<le> round_double (acc + js_sub now1 prev)"
    using assms(1) by (intro round_double_mono_pos) simp_all
  then show ?thesis by (simp add: js_add_def round_double_50)
qed

text \<open>At that cadence every frame is a step.\<close>

lemma spaced_frame_steps:
  assumes "0 \<le> acc" "spaced prev fs"
  shows "frame_steps acc prev fs = fs"
  using assms
proof (induction fs arbitrary: acc prev)
  case Nil
  then show ?case by simp
next
  case (Cons f fs)
  obtain now1 now2 rnd where f: "f = (now1, now2, rnd)" by (cases f) auto
  from Cons.prems(2) have sp: "50 \<le> now1 - prev" "spaced now2 fs" by (simp_all add: f)
  have "50 \<le> js_add acc (js_sub now1 prev)" using Cons.prems(1) sp(1) by (rule step_due)
  moreover have "frame_steps 0 now2 fs = fs" using sp(2) by (intro Cons.IH) simp_all
  ultimately show ?case by (simp add: f)
qed

section \<open>Properties of the driver\<close>

lemmas driver_defs =
  animateScene_def updateIntensity_def render_def mouseover_def mouseout_def Let_def

lemmas eval_defs =
  setupAnimation_def driver_defs frame_event_def random_of_def
  js_add_def js_sub_def round_double_50 round_double_25 pulse_values

lemma run_Nil: "run s [] = s"
  by (simp add: run_def)

lemma run_Cons: "run s (e # es) = run (dispatch s e) es"
  by (simp add: run_def)

subsection \<open>The number of pending callbacks and the frame counter\<close>

lemma dispatch_scheduled: "scheduled (dispatch s e) = scheduled s"
  by (cases e) (auto simp: driver_defs)





lemma settled_dispatch:
  assumes "frames s = 7" "isHovered s" "e \<noteq> Mouseout" "0 < scheduled s"
  shows "frames (dispatch s e) = 7 \<and> isHovered (dispatch s e) \<and>
    writes (dispatch s e) = writes s \<and>
    glitchIntensity_value (dispatch s e) = glitchIntensity_value s \<and>
    rendered (dispatch s e) = rendered s + (if is_Frame e then 1 else 0)"
  using assms by (cases e) (auto simp: driver_defs)

lemma settled_run:
  assumes "frames s = 7" "isHovered s" "Mouseout \<notin> set es" "0 < scheduled s"
  shows "frames (run s es) = 7 \<and> isHovered (run s es) \<and>
    writes (run s es) = writes s \<and>
    glitchIntensity_value (run s es) = glitchIntensity_value s \<and>
    rendered (run s es) = rendered s + length (filter is_Frame es)"
  using assms
proof (induction es arbitrary: s)
  case Nil
  then show ?case by (simp add: run_Nil)
next
  case (Cons e es)
  have e: "e \<noteq> Mouseout" using Cons.prems(3) by auto
  note d = settled_dispatch [OF Cons.prems(1,2) e Cons.prems(4)]
  have "0 < scheduled (dispatch s e)" using Cons.prems(4) by (simp add: dispatch_scheduled)
  with d Cons.prems(3) have
    "frames (run (dispatch s e) es) = 7 \<and> isHovered (run (dispatch s e) es) \<and>
     writes (run (dispatch s e) es) = writes (dispatch s e) \<and>
     glitchIntensity_value (run (dispatch s e) es) = glitchIntensity_value (dispatch s e) \<and>
     rendered (run (dispatch s e) es) = rendered (dispatch s e) + length (filter is_Frame es)"
    by (intro Cons.IH) auto
  with d show ?case by (simp add: run_Cons)
qed

subsection \<open>The values written to the uniform\<close>

lemma intensity_ok_pulse: "0 \<le> rnd \<Longrightarrow> rnd < 1 \<Longrightarrow> intensity_ok (pulse rnd)"
  using pulse_range by (simp add: intensity_ok_def)

lemma dispatch_intensity_ok:
  assumes "random_ok e" "intensity_ok (glitchIntensity_value s)"
    "list_all intensity_ok (writes s)"
  shows "intensity_ok (glitchIntensity_value (dispatch s e)) \<and>
         list_all intensity_ok (writes (dispatch s e))"
proof (cases e)
  case Mouseover
  then show ?thesis using assms by (simp add: mouseover_def)
next
  case Mouseout
  then show ?thesis using assms by (simp add: mouseout_def updateIntensity_def intensity_ok_def)
next
  case (Frame now1 now2 rnd)
  then have "intensity_ok (pulse rnd)" using assms(1) intensity_ok_pulse by simp
  moreover have "intensity_ok 0" by (simp add: intensity_ok_def)
  ultimately show ?thesis using assms Frame
    by (simp add: driver_defs)
qed

lemma run_intensity_ok:
  assumes "list_all random_ok es" "intensity_ok (glitchIntensity_value s)"
    "list_all intensity_ok (writes s)"
  shows "intensity_ok (glitchIntensity_value (run s es)) \<and>
         list_all intensity_ok (writes (run s es))"
  using assms
proof (induction es arbitrary: s)
  case Nil
  then show ?case by (simp add: run_Nil)
next
  case (Cons e es)
  from Cons.prems have "random_ok e" "list_all random_ok es" by simp_all
  with Cons.prems dispatch_intensity_ok [of e s] Cons.IH [of "dispatch s e"]
  show ?case by (simp add: run_Cons)
qed

text \<open>The uniform holds the value written last.\<close>

lemma dispatch_last_write:
  "\<exists>ws. writes (dispatch s e) = writes s @ ws \<and>
     glitchIntensity_value (dispatch s e) = (if ws = [] then glitchIntensity_value s else last ws)"
  by (cases e) (auto simp: driver_defs)

lemma run_last_write:
  "\<exists>ws. writes (run s es) = writes s @ ws \<and>
     glitchIntensity_value (run s es) = (if ws = [] then glitchIntensity_value s else last ws)"
proof (induction es arbitrary: s)
  case Nil
  then show ?case by (simp add: run_Nil)
next
  case (Cons e es)
  obtain ws where ws: "writes (dispatch s e) = writes s @ ws"
    "glitchIntensity_value (dispatch s e) = (if ws = [] then glitchIntensity_value s else last ws)"
    using dispatch_last_write by blast
  obtain ws' where ws': "writes (run (dispatch s e) es) = writes (dispatch s e) @ ws'"
    "glitchIntensity_value (run (dispatch s e) es) =
       (if ws' = [] then glitchIntensity_value (dispatch s e) else last ws')"
    using Cons.IH by blast
  have "writes (run s (e # es)) = writes s @ (ws @ ws')"
    by (simp add: run_Cons ws ws')
  moreover have "glitchIntensity_value (run s (e # es)) =
      (if ws @ ws' = [] then glitchIntensity_value s else last (ws @ ws'))"
    by (simp add: run_Cons ws ws')
  ultimately show ?case by blast
qed

subsection \<open>The ramp\<close>

text \<open>
  One frame while the pointer hovers and the counter is below 7. The elapsed time is
  added to the accumulator; if the sum has reached 50ms the frame is a step: the counter
  advances, the accumulator is emptied and the step writes a pulse for the new counter
  values 1 to 4 and 0 for 5 to 7. Otherwise only the accumulator and \<open>lastFrame\<close> change.
\<close>

lemma hovered_frame:
  assumes "isHovered s" "0 < scheduled s" "frames s < 7"
  shows "isHovered (dispatch s (Frame now1 now2 rnd)) \<and>
    0 < scheduled (dispatch s (Frame now1 now2 rnd)) \<and>
    lastFrame (dispatch s (Frame now1 now2 rnd)) = now2 \<and>
    (50 \<le> js_add (hoverDuration s) (js_sub now1 (lastFrame s)) \<longrightarrow>
       hoverDuration (dispatch s (Frame now1 now2 rnd)) = 0 \<and>
       frames (dispatch s (Frame now1 now2 rnd)) = Suc (frames s) \<and>
       writes (dispatch s (Frame now1 now2 rnd)) =
         writes s @ [if frames s < 4 then pulse rnd else 0]) \<and>
    (\<not> 50 \<le> js_add (hoverDuration s) (js_sub now1 (lastFrame s)) \<longrightarrow>
       hoverDuration (dispatch s (Frame now1 now2 rnd)) =
         js_add (hoverDuration s) (js_sub now1 (lastFrame s)) \<and>
       frames (dispatch s (Frame now1 now2 rnd)) = frames s \<and>
       writes (dispatch s (Frame now1 now2 rnd)) = writes s)"
  using assms by (auto simp: driver_defs)

lemma frame_steps_subset: "set (frame_steps acc prev fs) \<subseteq> set fs"
  by (induction acc prev fs rule: frame_steps.induct) auto

lemma Mouseout_not_frame: "Mouseout \<notin> set (map frame_event fs)"
  by (auto simp: frame_event_def split: prod.splits)

text \<open>
  Any sequence of frames while the pointer hovers, at any cadence: the counter ends at
  the number of steps, capped at 7, and the steps wrote a pulse each while the counter
  was below 4 and 0 each from then on.
\<close>

lemma ramp_writes:
  assumes "isHovered s" "0 < scheduled s" "frames s \<le> 7"
  shows "writes (run s (map frame_event fs)) =
      writes s @
      map pulse (map random_of
        (take (4 - frames s) (frame_steps (hoverDuration s) (lastFrame s) fs))) @
      replicate (min (length (frame_steps (hoverDuration s) (lastFrame s) fs)) (7 - frames s)
                 - (4 - frames s)) 0 \<and>
    frames (run s (map frame_event fs)) =
      min (frames s + length (frame_steps (hoverDuration s) (lastFrame s) fs)) 7"
  using assms
proof (induction fs arbitrary: s)
  case Nil
  then show ?case by (simp add: run_Nil)
next
  case (Cons f fs)
  obtain now1 now2 rnd where f: "f = (now1, now2, rnd)" by (cases f) auto
  show ?case
  proof (cases "frames s = 7")
    case True
    have "frames (run s (map frame_event (f # fs))) = 7 \<and>
        writes (run s (map frame_event (f # fs))) = writes s"
      using settled_run [OF True Cons.prems(1) Mouseout_not_frame [of "f # fs"] Cons.prems(2)]
      by blast
    then show ?thesis using True by simp
  next
    case False
    with Cons.prems(3) have lt: "frames s < 7" by simp
    let ?s = "dispatch s (Frame now1 now2 rnd)"
    let ?acc = "js_add (hoverDuration s) (js_sub now1 (lastFrame s))"
    note hf = hovered_frame [OF Cons.prems(1,2) lt, of now1 now2 rnd]
    have p: "isHovered ?s" "0 < scheduled ?s" "lastFrame ?s = now2" using hf by blast+
    have run: "run s (map frame_event (f # fs)) = run ?s (map frame_event fs)"
      by (simp add: run_Cons f frame_event_def)
    show ?thesis
    proof (cases "50 \<le> ?acc")
      case step: True
      let ?St = "frame_steps 0 now2 fs"
      from hf step have b: "hoverDuration ?s = 0" "frames ?s = Suc (frames s)"
        "writes ?s = writes s @ [if frames s < 4 then pulse rnd else 0]" by blast+
      have st: "frame_steps (hoverDuration s) (lastFrame s) (f # fs) = f # ?St"
        using step by (simp add: f)
      have le: "frames ?s \<le> 7" unfolding b using lt by simp
      note IH = Cons.IH [OF p(1,2) le, unfolded b p(3)]
      have w: "writes (run ?s (map frame_event fs)) =
          (writes s @ [if frames s < 4 then pulse rnd else 0]) @
          map pulse (map random_of (take (4 - Suc (frames s)) ?St)) @
          replicate (min (length ?St) (7 - Suc (frames s)) - (4 - Suc (frames s))) 0"
        and fr: "frames (run ?s (map frame_event fs)) = min (Suc (frames s) + length ?St) 7"
        using IH by blast+
      consider "frames s < 4" | "4 \<le> frames s" by linarith
      then show ?thesis
      proof cases
        case 1
        then have a: "4 - frames s = Suc (3 - frames s)" "4 - Suc (frames s) = 3 - frames s"
          "min (Suc (length ?St)) (7 - frames s) - Suc (3 - frames s) =
           min (length ?St) (7 - Suc (frames s)) - (3 - frames s)" by auto
        show ?thesis unfolding run st w fr using 1 by (simp add: a f random_of_def)
      next
        case 2
        with lt have a: "4 - frames s = 0" "4 - Suc (frames s) = 0" "3 - frames s = 0"
          "min (Suc (length ?St)) (7 - frames s) =
           Suc (min (length ?St) (7 - Suc (frames s)))" by auto
        show ?thesis unfolding run st w fr using 2 by (simp add: a)
      qed
    next
      case nostep: False
      let ?St = "frame_steps ?acc now2 fs"
      from hf nostep have b: "hoverDuration ?s = ?acc" "frames ?s = frames s"
        "writes ?s = writes s" by blast+
      have st: "frame_steps (hoverDuration s) (lastFrame s) (f # fs) = ?St"
        using nostep by (simp add: f)
      have le: "frames ?s \<le> 7" unfolding b using lt by simp
      note IH = Cons.IH [OF p(1,2) le, unfolded b p(3)]
      have w: "writes (run ?s (map frame_event fs)) =
          writes s @ map pulse (map random_of (take (4 - frames s) ?St)) @
          replicate (min (length ?St) (7 - frames s) - (4 - frames s)) 0"
        and fr: "frames (run ?s (map frame_event fs)) = min (frames s + length ?St) 7"
        using IH by blast+
      show ?thesis unfolding run st w fr by simp
    qed
  qed
qed

subsection \<open>The claims about the driver\<close>

text \<open>
  C7. A mouseout event, whatever the state of the driver, sets \<open>isHovered\<close> to false and
  writes 0 to the uniform at once (one call of \<open>updateIntensity\<close>); it reads neither the
  frame counter nor the accumulated time, and leaves them as they were.
\<close>

theorem mouseout_forces_zero:
  "isHovered (mouseout s) = False \<and>
   glitchIntensity_value (mouseout s) = 0 \<and>
   writes (mouseout s) = writes s @ [0] \<and>
   frames (mouseout s) = frames s \<and>
   hoverDuration (mouseout s) = hoverDuration s \<and>
   lastFrame (mouseout s) = lastFrame s \<and>
   rendered (mouseout s) = rendered s \<and>
   scheduled (mouseout s) = scheduled s \<and>
   dispatch s Mouseout = mouseout s"
  by (simp add: mouseout_def updateIntensity_def)

text \<open>
  C1, as the code has it. Starting idle (not hovered, with the animation callback
  pending), a mouseover followed by frames at any cadence, among which at least 5 are
  frame-steps (frames at which the elapsed time accumulated since the last step has
  reached 50ms), makes the driver write exactly 4 nonzero intensities, one at each of the
  first four steps, each \<open>(random + 1) * 0.5\<close> and so in \<open>[0.5, 1]\<close>; the fifth step, and
  the sixth and seventh if they occur, write 0; nothing else is written, whatever
  frames follow. The counter ends at the number of steps, at most 7, and the intensity
  at 0.
\<close>

theorem hover_cycle:
  assumes idle: "\<not> isHovered s" "0 < scheduled s"
    and steps: "5 \<le> length (frame_steps (hoverDuration s) (lastFrame s) fs)"
    and rnd: "\<forall>f \<in> set fs. 0 \<le> random_of f \<and> random_of f < 1"
  shows "writes (run s (Mouseover # map frame_event fs)) =
      writes s @
      map pulse (map random_of (take 4 (frame_steps (hoverDuration s) (lastFrame s) fs))) @
      replicate (min (length (frame_steps (hoverDuration s) (lastFrame s) fs)) 7 - 4) 0 \<and>
    frames (run s (Mouseover # map frame_event fs)) =
      min (length (frame_steps (hoverDuration s) (lastFrame s) fs)) 7 \<and>
    length (map pulse (map random_of
      (take 4 (frame_steps (hoverDuration s) (lastFrame s) fs)))) = 4 \<and>
    (\<forall>v \<in> set (map pulse (map random_of
        (take 4 (frame_steps (hoverDuration s) (lastFrame s) fs)))). 1/2 \<le> v \<and> v \<le> 1) \<and>
    filter (\<lambda>v. v \<noteq> 0)
        (map pulse (map random_of (take 4 (frame_steps (hoverDuration s) (lastFrame s) fs))) @
         replicate (min (length (frame_steps (hoverDuration s) (lastFrame s) fs)) 7 - 4) 0) =
      map pulse (map random_of (take 4 (frame_steps (hoverDuration s) (lastFrame s) fs))) \<and>
    0 < min (length (frame_steps (hoverDuration s) (lastFrame s) fs)) 7 - 4 \<and>
    min (length (frame_steps (hoverDuration s) (lastFrame s) fs)) 7 - 4 \<le> 3 \<and>
    glitchIntensity_value (run s (Mouseover # map frame_event fs)) = 0"
proof -
  let ?s = "mouseover s"
  let ?St = "frame_steps (hoverDuration s) (lastFrame s) fs"
  let ?P = "map pulse (map random_of (take 4 ?St))"
  let ?W = "?P @ replicate (min (length ?St) 7 - 4) 0"
  have m: "isHovered ?s" "frames ?s = 0" "scheduled ?s = scheduled s"
    "hoverDuration ?s = hoverDuration s" "lastFrame ?s = lastFrame s" "writes ?s = writes s"
    using idle(1) by (simp_all add: mouseover_def)
  have "writes (run ?s (map frame_event fs)) =
      writes ?s @
      map pulse (map random_of
        (take (4 - frames ?s) (frame_steps (hoverDuration ?s) (lastFrame ?s) fs))) @
      replicate (min (length (frame_steps (hoverDuration ?s) (lastFrame ?s) fs)) (7 - frames ?s)
                 - (4 - frames ?s)) 0 \<and>
    frames (run ?s (map frame_event fs)) =
      min (frames ?s + length (frame_steps (hoverDuration ?s) (lastFrame ?s) fs)) 7"
    using m idle by (intro ramp_writes) simp_all
  then have w: "writes (run s (Mouseover # map frame_event fs)) = writes s @ ?W"
    and fr: "frames (run s (Mouseover # map frame_event fs)) = min (length ?St) 7"
    by (simp_all add: run_Cons m)
  have pos: "0 < min (length ?St) 7 - 4" "min (length ?St) 7 - 4 \<le> 3"
    using steps by simp_all
  then have ne: "?W \<noteq> []" and l: "last ?W = 0" by auto
  obtain ws where ws: "writes (run s (Mouseover # map frame_event fs)) = writes s @ ws"
    "glitchIntensity_value (run s (Mouseover # map frame_event fs)) =
       (if ws = [] then glitchIntensity_value s else last ws)"
    using run_last_write by blast
  from w ws(1) have "ws = ?W" by simp
  with ws(2) ne l have z: "glitchIntensity_value (run s (Mouseover # map frame_event fs)) = 0"
    by simp
  have sub: "set ?St \<subseteq> set fs"
    by (rule frame_steps_subset)
  have r: "\<forall>v \<in> set ?P. 1/2 \<le> v \<and> v \<le> 1"
  proof
    fix v assume "v \<in> set ?P"
    then obtain f where "f \<in> set (take 4 ?St)" "v = pulse (random_of f)" by auto
    moreover from this have "f \<in> set ?St" by (meson in_set_takeD)
    ultimately show "1/2 \<le> v \<and> v \<le> 1" using rnd pulse_range sub by blast
  qed
  then have "\<forall>v \<in> set ?P. v \<noteq> 0" by auto
  then have "filter (\<lambda>v. v \<noteq> 0) ?P = ?P" by (simp only: filter_True)
  then have nz: "filter (\<lambda>v. v \<noteq> 0) ?W = ?P" by simp
  have "length ?P = 4" using steps by simp
  with w fr r nz pos z show ?thesis by blast
qed

text \<open>
  The witness runs at a cadence of 25ms: the accumulator reaches 50ms at every second
  frame, so 14 frames make 7 steps, and two more frames write nothing.
\<close>

theorem hover_cycle_witness:
  "\<not> isHovered (setupAnimation 0 0) \<and>
   frame_steps (hoverDuration (setupAnimation 0 0)) (lastFrame (setupAnimation 0 0))
     [(25, 25, 1/2), (50, 50, 0), (75, 75, 1/2), (100, 100, 1/4), (125, 125, 1/2),
      (150, 150, 1/2), (175, 175, 1/2), (200, 200, 3/4), (225, 225, 1/2), (250, 250, 1/2),
      (275, 275, 1/2), (300, 300, 1/2), (325, 325, 1/2), (350, 350, 1/2), (375, 375, 1/2),
      (400, 400, 1/2)] =
     [(50, 50, 0), (100, 100, 1/4), (150, 150, 1/2), (200, 200, 3/4), (250, 250, 1/2),
      (300, 300, 1/2), (350, 350, 1/2), (400, 400, 1/2)] \<and>
   writes (run (setupAnimation 0 0) (Mouseover # map frame_event
     [(25, 25, 1/2), (50, 50, 0), (75, 75, 1/2), (100, 100, 1/4), (125, 125, 1/2),
      (150, 150, 1/2), (175, 175, 1/2), (200, 200, 3/4), (225, 225, 1/2), (250, 250, 1/2),
      (275, 275, 1/2), (300, 300, 1/2), (325, 325, 1/2), (350, 350, 1/2), (375, 375, 1/2),
      (400, 400, 1/2)])) =
     [1/2, 5/8, 3/4, 7/8, 0, 0, 0] \<and>
   frames (run (setupAnimation 0 0) (Mouseover # map frame_event
     [(25, 25, 1/2), (50, 50, 0), (75, 75, 1/2), (100, 100, 1/4), (125, 125, 1/2),
      (150, 150, 1/2), (175, 175, 1/2), (200, 200, 3/4), (225, 225, 1/2), (250, 250, 1/2),
      (275, 275, 1/2), (300, 300, 1/2), (325, 325, 1/2), (350, 350, 1/2), (375, 375, 1/2),
      (400, 400, 1/2)])) = 7 \<and>
   glitchIntensity_value (run (setupAnimation 0 0) (Mouseover # map frame_event
     [(25, 25, 1/2), (50, 50, 0), (75, 75, 1/2), (100, 100, 1/4), (125, 125, 1/2),
      (150, 150, 1/2), (175, 175, 1/2), (200, 200, 3/4), (225, 225, 1/2), (250, 250, 1/2),
      (275, 275, 1/2), (300, 300, 1/2), (325, 325, 1/2), (350, 350, 1/2), (375, 375, 1/2),
      (400, 400, 1/2)])) = 0"
proof -
  let ?fs = "[(25, 25, 1/2), (50, 50, 0), (75, 75, 1/2), (100, 100, 1/4), (125, 125, 1/2),
      (150, 150, 1/2), (175, 175, 1/2), (200, 200, 3/4), (225, 225, 1/2), (250, 250, 1/2),
      (275, 275, 1/2), (300, 300, 1/2), (325, 325, 1/2), (350, 350, 1/2), (375, 375, 1/2),
      (400, 400, 1/2)] :: frame list"
  have h: "\<not> isHovered (setupAnimation 0 0)" "0 < scheduled (setupAnimation 0 0)"
    by (simp_all add: setupAnimation_def driver_defs)
  have i: "hoverDuration (setupAnimation 0 0) = 0" "lastFrame (setupAnimation 0 0) = 0"
    "writes (setupAnimation 0 0) = []"
    by (simp_all add: setupAnimation_def driver_defs)
  have st: "frame_steps (hoverDuration (setupAnimation 0 0)) (lastFrame (setupAnimation 0 0)) ?fs =
     [(50, 50, 0), (100, 100, 1/4), (150, 150, 1/2), (200, 200, 3/4), (250, 250, 1/2),
      (300, 300, 1/2), (350, 350, 1/2), (400, 400, 1/2)]"
    unfolding i by (simp add: js_add_def js_sub_def round_double_25 round_double_50)
  have len: "5 \<le> length (frame_steps (hoverDuration (setupAnimation 0 0))
      (lastFrame (setupAnimation 0 0)) ?fs)"
    unfolding st by simp
  have rnd: "\<forall>f \<in> set ?fs. 0 \<le> random_of f \<and> random_of f < 1"
    by (simp add: random_of_def)
  note hc = hover_cycle [OF h len rnd, unfolded st]
  from hc h(1) st show ?thesis
    by (simp add: i(3) random_of_def pulse_values)
qed

text \<open>
  The claim as the specification states it fails: after a mouseover, eight frames 50ms
  apart produce four nonzero intensities, not five, and three writes of 0.
\<close>

theorem hover_cycle_five_pulses_counterexample:
  "writes (run (setupAnimation 0 0)
       [Mouseover, Frame 50 50 0, Frame 100 100 (1/4), Frame 150 150 (1/2), Frame 200 200 (3/4),
        Frame 250 250 (1/2), Frame 300 300 (1/2), Frame 350 350 (1/2), Frame 400 400 (1/2)]) =
     [1/2, 5/8, 3/4, 7/8, 0, 0, 0] \<and>
   length (filter (\<lambda>v. v \<noteq> 0) (writes (run (setupAnimation 0 0)
       [Mouseover, Frame 50 50 0, Frame 100 100 (1/4), Frame 150 150 (1/2), Frame 200 200 (3/4),
        Frame 250 250 (1/2), Frame 300 300 (1/2), Frame 350 350 (1/2), Frame 400 400 (1/2)])))
     \<noteq> 5"
  by (simp add: eval_defs run_Cons run_Nil)

text \<open>
  C2, as the code has it. A mouseover received while \<open>isHovered\<close> is already true changes
  nothing: the frame counter keeps its value (the listener resets it only when
  \<open>isHovered\<close> was false), no callback is scheduled, nothing is rendered or written.
\<close>

theorem reentrant_mouseover_keeps_frames:
  assumes "isHovered s"
  shows "mouseover s = s \<and> frames (mouseover s) = frames s \<and>
    isHovered (mouseover s) \<and>
    scheduled (mouseover s) = scheduled s \<and> rendered (mouseover s) = rendered s \<and>
    writes (mouseover s) = writes s"
  using assms by (simp add: mouseover_def)

theorem reentrant_mouseover_keeps_frames_witness:
  "isHovered (run (setupAnimation 0 0)
      [Mouseover, Frame 50 50 0, Frame 100 100 0, Frame 150 150 0]) \<and>
   frames (mouseover (run (setupAnimation 0 0)
      [Mouseover, Frame 50 50 0, Frame 100 100 0, Frame 150 150 0])) = 3 \<and>
   scheduled (mouseover (run (setupAnimation 0 0)
      [Mouseover, Frame 50 50 0, Frame 100 100 0, Frame 150 150 0])) = 1"
proof -
  let ?s = "run (setupAnimation 0 0) [Mouseover, Frame 50 50 0, Frame 100 100 0, Frame 150 150 0]"
  have h: "isHovered ?s" by (simp add: eval_defs run_Cons run_Nil)
  have "frames ?s = 3" "scheduled ?s = 1" by (simp_all add: eval_defs run_Cons run_Nil)
  with reentrant_mouseover_keeps_frames [OF h] h show ?thesis by simp
qed

text \<open>
  The claim as the specification states it fails: after three steps of a hover cycle the
  counter is 3, and a second mouseover leaves it at 3.
\<close>

theorem reentrant_mouseover_reset_counterexample:
  "isHovered (run (setupAnimation 0 0)
      [Mouseover, Frame 50 50 0, Frame 100 100 0, Frame 150 150 0]) \<and>
   frames (run (setupAnimation 0 0)
      [Mouseover, Frame 50 50 0, Frame 100 100 0, Frame 150 150 0]) = 3 \<and>
   frames (dispatch (run (setupAnimation 0 0)
      [Mouseover, Frame 50 50 0, Frame 100 100 0, Frame 150 150 0]) Mouseover) \<noteq> 0"
  by (simp add: eval_defs run_Cons run_Nil)

text \<open>
  C9, as the code has it. The uniform \<open>glitchIntensity\<close> always lies in \<open>[0, 1]\<close>:
  \<open>makeScene\<close> initialises it to 0, and in every state the driver reaches by mouse
  events and frames whose random numbers lie in \<open>[0, 1)\<close>, every value written so far
  is 0 or lies in \<open>[0.5, 1]\<close>.
\<close>

theorem intensity_in_unit_interval:
  assumes "list_all random_ok es"
  shows "uniform_glitchIntensity (makeScene offsetWidth offsetHeight) = 0 \<and>
    glitchIntensity_value (setupAnimation now0 now2) = 0 \<and>
    0 \<le> glitchIntensity_value (run (setupAnimation now0 now2) es) \<and>
    glitchIntensity_value (run (setupAnimation now0 now2) es) \<le> 1 \<and>
    list_all (\<lambda>v. v = 0 \<or> (1/2 \<le> v \<and> v \<le> 1)) (writes (run (setupAnimation now0 now2) es))"
proof -
  have init: "glitchIntensity_value (setupAnimation now0 now2) = 0"
    "writes (setupAnimation now0 now2) = []"
    by (simp_all add: setupAnimation_def driver_defs)
  then have "intensity_ok (glitchIntensity_value (setupAnimation now0 now2))"
    "list_all intensity_ok (writes (setupAnimation now0 now2))"
    by (simp_all add: intensity_ok_def)
  with assms have "intensity_ok (glitchIntensity_value (run (setupAnimation now0 now2) es)) \<and>
    list_all intensity_ok (writes (run (setupAnimation now0 now2) es))"
    by (rule run_intensity_ok)
  moreover have "intensity_ok = (\<lambda>v. v = 0 \<or> (1/2 \<le> v \<and> v \<le> 1))"
    by (auto simp: intensity_ok_def fun_eq_iff)
  moreover have "uniform_glitchIntensity (makeScene offsetWidth offsetHeight) = 0"
    by (simp add: makeScene_def Let_def)
  ultimately show ?thesis using init(1) by (auto simp: intensity_ok_def)
qed

theorem intensity_in_unit_interval_witness:
  "list_all random_ok [Mouseover, Frame 50 50 (1/2), Frame 100 100 (3/4), Mouseout,
       Mouseover, Frame 150 150 0] \<and>
   glitchIntensity_value (run (setupAnimation 0 0)
      [Mouseover, Frame 50 50 (1/2), Frame 100 100 (3/4), Mouseout,
       Mouseover, Frame 150 150 0]) = 1/2 \<and>
   writes (run (setupAnimation 0 0)
      [Mouseover, Frame 50 50 (1/2), Frame 100 100 (3/4), Mouseout,
       Mouseover, Frame 150 150 0]) = [3/4, 7/8, 0, 1/2] \<and>
   0 \<le> glitchIntensity_value (run (setupAnimation 0 0)
      [Mouseover, Frame 50 50 (1/2), Frame 100 100 (3/4), Mouseout,
       Mouseover, Frame 150 150 0]) \<and>
   glitchIntensity_value (run (setupAnimation 0 0)
      [Mouseover, Frame 50 50 (1/2), Frame 100 100 (3/4), Mouseout,
       Mouseover, Frame 150 150 0]) \<le> 1"
proof -
  let ?es = "[Mouseover, Frame 50 50 (1/2), Frame 100 100 (3/4), Mouseout,
       Mouseover, Frame 150 150 0]"
  have h: "list_all random_ok ?es" by simp
  have v: "glitchIntensity_value (run (setupAnimation 0 0) ?es) = 1/2"
    "writes (run (setupAnimation 0 0) ?es) = [3/4, 7/8, 0, 1/2]"
    by (simp_all add: eval_defs run_Cons run_Nil)
  from intensity_in_unit_interval [OF h, of 0 0 0 0] h v show ?thesis by simp
qed

text \<open>
  The half-open interval of the claim fails: when \<open>Math.random()\<close> returns the largest
  double below 1, the sum \<open>Math.random() + 1\<close> is a tie between two doubles and rounds
  to 2, so the step writes exactly 1.
\<close>

theorem intensity_below_one_counterexample:
  "random_ok (Frame 50 50 largest_below_one) \<and>
   round_double largest_below_one = largest_below_one \<and>
   glitchIntensity_value (run (setupAnimation 0 0) [Mouseover, Frame 50 50 largest_below_one]) = 1 \<and>
   \<not> glitchIntensity_value (run (setupAnimation 0 0) [Mouseover, Frame 50 50 largest_below_one])
       < 1"
proof -
  have "random_ok (Frame 50 50 largest_below_one)"
    by (simp add: largest_below_one_def)
  moreover have "round_double largest_below_one = largest_below_one"
    unfolding largest_below_one_def by (rule round_double_below_1)
  moreover have
    "glitchIntensity_value (run (setupAnimation 0 0) [Mouseover, Frame 50 50 largest_below_one])
      = 1"
    by (simp add: setupAnimation_def driver_defs run_Cons run_Nil js_add_def js_sub_def
        round_double_50 pulse_largest_below_one)
  ultimately show ?thesis by simp
qed



section \<open>Properties of the fragment shader\<close>

text \<open>On an integer-valued segment, GLSL's \<open>mod\<close> by 3 is the integer remainder.\<close>

lemma mod_glsl_int: "mod_glsl (of_int k) 3.0 = of_int (k mod 3)"
proof -
  have "\<lfloor>(of_int k :: real) / 3\<rfloor> = k div 3"
    by (metis floor_divide_of_int_eq of_int_numeral)
  then have "mod_glsl (of_int k) 3.0 = of_int k - 3 * of_int (k div 3)"
    by (simp add: mod_glsl_def floor_glsl_def)
  also have "\<dots> = of_int (k - 3 * (k div 3))" by simp
  also have "k - 3 * (k div 3) = k mod 3" by (simp add: minus_mult_div_eq_mod mult.commute)
  finally show ?thesis .
qed

text \<open>
  C5. For every texture coordinate, if \<open>glitchIntensity \<le> 0\<close> the fragment colour is the
  texture sample at that coordinate.
\<close>

theorem shader_identity:
  "glitchIntensity \<le> 0 \<Longrightarrow> fragment_main tDiffuse glitchIntensity uv = texture2D tDiffuse uv"
  by (simp add: fragment_main_def Let_def)

theorem shader_identity_witness:
  "(0::real) \<le> 0 \<and>
   fragment_main (\<lambda>uv. Vec4 (fst uv) (snd uv) 0 1) 0 (1/4, 1/2) = Vec4 (1/4) (1/2) 0 1 \<and>
   fragment_main (\<lambda>uv. Vec4 (fst uv) (snd uv) 0 1) (- 1) (1/4, 1/2) = Vec4 (1/4) (1/2) 0 1"
  using shader_identity [of 0 "\<lambda>uv. Vec4 (fst uv) (snd uv) 0 1" "(1/4, 1/2)"]
    shader_identity [of "- 1" "\<lambda>uv. Vec4 (fst uv) (snd uv) 0 1" "(1/4, 1/2)"]
  by (simp add: texture2D_def)

text \<open>
  C6. With \<open>glitchIntensity > 0\<close>, the fragment colour is the documented recombination
  selected by \<open>segment mod 3\<close>, where \<open>segment = floor (uv.y * 8)\<close>, applied to the samples
  at \<open>uv + offset\<close>, \<open>uv - offset\<close> and \<open>uv\<close>.
\<close>

theorem shader_recombination:
  assumes "0 < glitchIntensity"
  shows "fragment_main tDiffuse glitchIntensity uv =
     documented_recombination (\<lfloor>snd uv * 8\<rfloor> mod 3)
       (texture2D tDiffuse (vec2_add uv (offset glitchIntensity uv)))
       (texture2D tDiffuse (vec2_sub uv (offset glitchIntensity uv)))
       (texture2D tDiffuse uv)"
proof -
  have m: "mod_glsl (segment uv) 3.0 = of_int (\<lfloor>snd uv * 8\<rfloor> mod 3)"
    unfolding segment_def floor_glsl_def using mod_glsl_int [of "\<lfloor>snd uv * 8\<rfloor>"]
    by (simp add: floor_glsl_def)
  show ?thesis using assms
    unfolding fragment_main_def Let_def m documented_recombination_def
    by simp
qed

text \<open>
  The witness samples a texture that varies with \<open>uv.y\<close> only, in the bands 0, 4 and 2
  (rules 0, 1 and 2).
\<close>

theorem shader_recombination_witness:
  "(0::real) < 1/2 \<and>
   fragment_main (\<lambda>uv. Vec4 (snd uv) (snd uv + 1) (snd uv + 2) 1) (1/2) (1/4, 0)
     = Vec4 0 1 2 2 \<and>
   fragment_main (\<lambda>uv. Vec4 (snd uv) (snd uv + 1) (snd uv + 2) 1) (1/2) (1/4, 1/2)
     = Vec4 (1/2) (3/2) (5/2) 2 \<and>
   fragment_main (\<lambda>uv. Vec4 (snd uv) (snd uv + 1) (snd uv + 2) 1) (1/2) (1/4, 1/4)
     = Vec4 (1/4) (5/4) (9/4) 2"
  using shader_recombination [of "1/2" "\<lambda>uv. Vec4 (snd uv) (snd uv + 1) (snd uv + 2) 1" "(1/4, 0)"]
    shader_recombination [of "1/2" "\<lambda>uv. Vec4 (snd uv) (snd uv + 1) (snd uv + 2) 1" "(1/4, 1/2)"]
    shader_recombination [of "1/2" "\<lambda>uv. Vec4 (snd uv) (snd uv + 1) (snd uv + 2) 1" "(1/4, 1/4)"]
  by (simp add: documented_recombination_def texture2D_def vec2_sub_def vec2_add_def offset_def)

text \<open>
  C3, as the code has it. For every \<open>uv\<close> and every \<open>glitchIntensity > 0\<close> the offset is
  horizontal and equals \<open>randomValue * 0.03 * glitchIntensity\<close>, where \<open>randomValue\<close>, the
  hash of the segment and of \<open>glitchIntensity\<close> itself, lies in \<open>[0, 1)\<close>; so the offset
  magnitude lies in \<open>[0, 0.03 * glitchIntensity)\<close>.
\<close>

theorem offset_bounded:
  assumes "0 < glitchIntensity"
  shows "offset glitchIntensity uv = (randomValue glitchIntensity uv * 0.03 * glitchIntensity, 0) \<and>
     0 \<le> randomValue glitchIntensity uv \<and> randomValue glitchIntensity uv < 1 \<and>
     0 \<le> fst (offset glitchIntensity uv) \<and>
     fst (offset glitchIntensity uv) < 0.03 * glitchIntensity \<and>
     snd (offset glitchIntensity uv) = 0"
proof -
  have r: "0 \<le> randomValue glitchIntensity uv \<and> randomValue glitchIntensity uv < 1"
    unfolding randomValue_def fract_def floor_glsl_def by linarith
  then show ?thesis using assms by (simp add: offset_def)
qed

theorem offset_bounded_witness:
  "(0::real) < 3/5 \<and> 0 \<le> fst (offset (3/5) (0, 0)) \<and> fst (offset (3/5) (0, 0)) < 9/500 \<and>
   snd (offset (3/5) (0, 0)) = 0"
  using offset_bounded [of "3/5" "(0, 0)"] by simp

text \<open>
  The offset is not monotone in \<open>glitchIntensity\<close>: at \<open>uv = (0, 0)\<close> (segment 0) the
  hash is \<open>fract (sin 0.6 * 1000) > 0.6\<close> for intensity 0.6 and
  \<open>fract (sin 0.7 * 1000) < 0.3\<close> for intensity 0.7. The sines are bounded by the Taylor
  polynomial of degree 7.
\<close>

lemma sum_upto_9:
  "(\<Sum>m<9. f m) = f 0 + f 1 + f 2 + f 3 + f 4 + f 5 + f 6 + f 7 + f 8" for f :: "nat \<Rightarrow> real"
proof -
  have "{..<9::nat} = {0, 1, 2, 3, 4, 5, 6, 7, 8}" by auto
  then show ?thesis by simp
qed

lemma sin_coeffs:
  "sin_coeff (Suc 0) = 1" "sin_coeff 2 = 0" "sin_coeff 3 = - 1 / 6"
  "sin_coeff 4 = 0" "sin_coeff 5 = 1 / 120" "sin_coeff 6 = 0" "sin_coeff 7 = - 1 / 5040"
  "sin_coeff 8 = 0"
  by (simp_all add: sin_coeff_def fact_numeral)

lemma sin_taylor9:
  "\<bar>sin x - (x - x^3 / 6 + x^5 / 120 - x^7 / 5040)\<bar> \<le> \<bar>x\<bar>^9 / 362880" for x :: real
proof -
  have a: "(\<Sum>m<9. sin_coeff m * x ^ m) = x - x^3 / 6 + x^5 / 120 - x^7 / 5040"
    using sum_upto_9 [of "\<lambda>m. sin_coeff m * x ^ m"] by (simp add: sin_coeffs)
  have "fact 9 = (362880 :: real)"
    by (simp add: fact_numeral)
  then have b: "inverse (fact 9) * \<bar>x\<bar> ^ 9 = \<bar>x\<bar>^9 / 362880"
    by (simp only: inverse_eq_divide times_divide_eq_left mult_1)
  show ?thesis using Maclaurin_sin_bound [of x 9] unfolding a b .
qed

lemma sin_06: "5646 / 10000 \<le> sin (3/5 :: real) \<and> sin (3/5 :: real) < 565 / 1000"
proof -
  have "((3/5 :: real) - (3/5)^3 / 6 + (3/5)^5 / 120 - (3/5)^7 / 5040) = 24703107 / 43750000"
    by (simp add: power_divide)
  moreover have "\<bar>3/5 :: real\<bar>^9 / 362880 \<le> 1 / 1000000" by (simp add: power_divide)
  ultimately have "\<bar>sin (3/5 :: real) - 24703107 / 43750000\<bar> \<le> 1 / 1000000"
    using sin_taylor9 [of "3/5"] by linarith
  then show ?thesis by linarith
qed

lemma sin_07: "644 / 1000 \<le> sin (7/10 :: real) \<and> sin (7/10 :: real) \<le> 6443 / 10000"
proof -
  have "((7/10 :: real) - (7/10)^3 / 6 + (7/10)^5 / 120 - (7/10)^7 / 5040) =
      4638366551 / 7200000000"
    by (simp add: power_divide)
  moreover have "\<bar>7/10 :: real\<bar>^9 / 362880 \<le> 1 / 1000000" by (simp add: power_divide)
  ultimately have "\<bar>sin (7/10 :: real) - 4638366551 / 7200000000\<bar> \<le> 1 / 1000000"
    using sin_taylor9 [of "7/10"] by linarith
  then show ?thesis by linarith
qed

lemma randomValue_06: "6 / 10 \<le> randomValue (3/5) (0, 0)"
proof -
  have "\<lfloor>sin (3/5 :: real) * 1000\<rfloor> = 564" using sin_06 by (simp add: floor_eq_iff)
  then show ?thesis using sin_06
    by (simp add: randomValue_def segment_def fract_def floor_glsl_def)
qed

lemma randomValue_07: "randomValue (7/10) (0, 0) \<le> 3 / 10"
proof -
  have "\<lfloor>sin (7/10 :: real) * 1000\<rfloor> = 644" using sin_07 by (simp add: floor_eq_iff)
  then show ?thesis using sin_07
    by (simp add: randomValue_def segment_def fract_def floor_glsl_def)
qed

theorem offset_monotone_counterexample:
  "(3/5 :: real) \<le> 7/10 \<and> fst (offset (7/10) (0, 0)) < fst (offset (3/5) (0, 0))"
  using randomValue_06 randomValue_07 by (simp add: offset_def)

section \<open>Properties of the scene\<close>

text \<open>
  C8. For a host box of width \<open>w\<close> and height \<open>h > 0\<close>, \<open>makeScene\<close> builds a camera with
  field of view 90 degrees, near plane 0.01 (the double of that literal), far plane 10,
  at distance 1 on the view axis, and a quad of size \<open>2 * (w / h)\<close> by 2 centred at the
  origin, \<open>w / h\<close> being the aspect ratio as JavaScript computes it; the quad lies between
  the near and the far plane, and the rectangle the camera sees at the quad's distance is
  exactly the quad.
\<close>

theorem makeScene_fills_frustum:
  assumes "0 < offsetHeight"
  shows "fov (camera (makeScene offsetWidth offsetHeight)) = 90 \<and>
    near (camera (makeScene offsetWidth offsetHeight)) = round_double 0.01 \<and>
    far (camera (makeScene offsetWidth offsetHeight)) = 10 \<and>
    camera_position (camera (makeScene offsetWidth offsetHeight)) = Vector3 0 0 1 \<and>
    aspect (camera (makeScene offsetWidth offsetHeight)) =
      js_div (real offsetWidth) (real offsetHeight) \<and>
    plane_width (planeMesh (makeScene offsetWidth offsetHeight)) =
      2 * js_div (real offsetWidth) (real offsetHeight) \<and>
    plane_height (planeMesh (makeScene offsetWidth offsetHeight)) = 2 \<and>
    mesh_position (planeMesh (makeScene offsetWidth offsetHeight)) = Vector3 0 0 0 \<and>
    view_distance (camera (makeScene offsetWidth offsetHeight))
        (planeMesh (makeScene offsetWidth offsetHeight)) = 1 \<and>
    0 < near (camera (makeScene offsetWidth offsetHeight)) \<and>
    near (camera (makeScene offsetWidth offsetHeight)) < 1 \<and>
    1 < far (camera (makeScene offsetWidth offsetHeight)) \<and>
    frustum_height (camera (makeScene offsetWidth offsetHeight)) 1 =
      plane_height (planeMesh (makeScene offsetWidth offsetHeight)) \<and>
    frustum_width (camera (makeScene offsetWidth offsetHeight)) 1 =
      plane_width (planeMesh (makeScene offsetWidth offsetHeight)) \<and>
    frustum_rect (camera (makeScene offsetWidth offsetHeight)) 1 =
      plane_rect (planeMesh (makeScene offsetWidth offsetHeight))"
proof -
  let ?a = "js_div (real offsetWidth) (real offsetHeight)"
  have t: "tan (90 * pi / 180 / 2) = 1" using tan_45 by simp
  have "0 \<le> real offsetWidth / real offsetHeight" by simp
  then have "round_double ?a = ?a"
    unfolding js_div_def by (rule round_double_idem)
  then have m: "js_mul 2 ?a = 2 * ?a"
    by (simp add: js_mul_def round_double_times_2)
  have "2 powi (- 7) \<le> round_double (1 / 100) \<and> round_double (1 / 100) \<le> 2 powi (- 7 + 1)"
    by (rule round_double_bounds) simp_all
  then have "0 < round_double (1 / 100)" "round_double (1 / 100) < 1" by simp_all
  with t m show ?thesis
    by (simp add: makeScene_def Let_def frustum_height_def frustum_width_def view_distance_def
        frustum_rect_def plane_rect_def)
qed

theorem makeScene_fills_frustum_witness:
  "(0::nat) < 50 \<and>
   plane_rect (planeMesh (makeScene 200 50)) = (- 4, 4, - 1, 1) \<and>
   frustum_rect (camera (makeScene 200 50)) 1 = (- 4, 4, - 1, 1)"
proof -
  have "round_double 4 = 4"
    by (rule round_double_representable [where e = 2 and k = "2 ^ 52"]) simp_all
  then have "js_div (real 200) (real 50) = 4" by (simp add: js_div_def)
  with makeScene_fills_frustum [of 50 200] show ?thesis
    by (simp add: plane_rect_def)
qed

section \<open>Properties of the text rasterizer\<close>

lemma writeText_attrs:
  "fillStyle (writeText glyphs c style text) = color style \<and>
   font (writeText glyphs c style text) =
     fontWeight style @ '' '' @ fontSize style @ '' '' @ fontFamily style \<and>
   textAlign (writeText glyphs c style text) = ''center'' \<and>
   textBaseline (writeText glyphs c style text) = ''middle'' \<and>
   canvas_width (writeText glyphs c style text) = canvas_width c \<and>
   canvas_height (writeText glyphs c style text) = canvas_height c"
  by (simp add: writeText_def fillText_def Let_def)

lemma writeText_bitmap:
  "bitmap (writeText glyphs c style text) p =
     source_over (label_image glyphs c style text p) (bitmap c p)"
  by (simp add: writeText_def fillText_def Let_def label_image_def)

lemma label_image_writeText:
  "label_image glyphs (writeText glyphs c style text) style text = label_image glyphs c style text"
  by (simp add: label_image_def writeText_attrs)

lemma source_over_twice:
  assumes "src = Vec4 0 0 0 0 \<or> chan_a src = 1"
  shows "source_over src (source_over src dst) = source_over src dst"
  using assms by (auto simp: source_over_def)

text \<open>
  C4, as the code has it. \<open>writeText\<close> does not clear the bitmap: each call assigns the
  same four drawing attributes and composites the label over what the bitmap holds.
  After two calls in succession with the same label, canvas and computed style, the
  drawing attributes are those after one call, and a pixel has the value it had after
  one call wherever the label's image is fully opaque or fully transparent.
\<close>

theorem writeText_paints_over:
  assumes "label_image glyphs c style text p = Vec4 0 0 0 0 \<or>
           chan_a (label_image glyphs c style text p) = 1"
  shows "bitmap (writeText glyphs c style text) p =
      source_over (label_image glyphs c style text p) (bitmap c p) \<and>
    bitmap (writeText glyphs (writeText glyphs c style text) style text) p =
      bitmap (writeText glyphs c style text) p \<and>
    fillStyle (writeText glyphs (writeText glyphs c style text) style text) =
      fillStyle (writeText glyphs c style text) \<and>
    font (writeText glyphs (writeText glyphs c style text) style text) =
      font (writeText glyphs c style text) \<and>
    textAlign (writeText glyphs (writeText glyphs c style text) style text) =
      textAlign (writeText glyphs c style text) \<and>
    textBaseline (writeText glyphs (writeText glyphs c style text) style text) =
      textBaseline (writeText glyphs c style text)"
  using assms
  by (simp add: writeText_bitmap label_image_writeText writeText_attrs source_over_twice)

theorem writeText_paints_over_witness:
  "chan_a (label_image opaque_glyphs one_pixel_canvas black_serif ''a'' (0, 0)) = 1 \<and>
   bitmap (writeText opaque_glyphs one_pixel_canvas black_serif ''a'') (0, 0) = Vec4 0 0 0 1 \<and>
   bitmap (writeText opaque_glyphs (writeText opaque_glyphs one_pixel_canvas black_serif ''a'')
      black_serif ''a'') (0, 0) = Vec4 0 0 0 1"
proof -
  have h: "chan_a (label_image opaque_glyphs one_pixel_canvas black_serif ''a'' (0, 0)) = 1"
    by (simp add: label_image_def opaque_glyphs_def)
  then have "label_image opaque_glyphs one_pixel_canvas black_serif ''a'' (0, 0) = Vec4 0 0 0 0 \<or>
    chan_a (label_image opaque_glyphs one_pixel_canvas black_serif ''a'' (0, 0)) = 1" by simp
  from writeText_paints_over [OF this] h show ?thesis
    by (simp add: label_image_def opaque_glyphs_def source_over_def one_pixel_canvas_def)
qed

text \<open>
  The claim as the specification states it fails: where the label covers a pixel by
  half, the first call leaves alpha 1/2 and the second raises it to 3/4.
\<close>

theorem writeText_idempotent_counterexample:
  "bitmap (writeText edge_glyphs one_pixel_canvas black_serif ''a'') (0, 0) = Vec4 0 0 0 (1/2) \<and>
   bitmap (writeText edge_glyphs (writeText edge_glyphs one_pixel_canvas black_serif ''a'')
      black_serif ''a'') (0, 0) = Vec4 0 0 0 (3/4) \<and>
   bitmap (writeText edge_glyphs (writeText edge_glyphs one_pixel_canvas black_serif ''a'')
      black_serif ''a'') (0, 0) \<noteq>
   bitmap (writeText edge_glyphs one_pixel_canvas black_serif ''a'') (0, 0)"
  by (simp add: writeText_bitmap label_image_def edge_glyphs_def source_over_def
      one_pixel_canvas_def)

end
